theory Spec2Isabelle
  imports Main
begin

section \<open>JavaScript values\<close>

text \<open>
  A task descriptor arrives from \<^verbatim>\<open>JSON.parse\<close>, so it may be any JSON value, and the
  validation of \<^verbatim>\<open>taskRunner.js\<close> is written against exactly that: it tests truthiness and
  \<^verbatim>\<open>typeof\<close>. An object is the list of its own properties, each listed once; being JSON,
  none of them is a function. A number is an integer; \<open>JNum n\<close> stands for a number of the
  language when \<open>n\<close> is a safe integer, between \<open>- (2^53 - 1)\<close> and \<open>2^53 - 1\<close>.
  Numbers with a fraction, and arrays inside a descriptor, are not among these values.
\<close>

datatype jsval =
    JUndefined
  | JNull
  | JBool bool
  | JNum int
  | JStr string
  | JObj "(string \<times> jsval) list"

text \<open>\<^verbatim>\<open>!v\<close> is \<open>\<not> truthy v\<close>: undefined, null, false, 0 and the empty string are falsy.\<close>

fun truthy :: "jsval \<Rightarrow> bool" where
  "truthy JUndefined = False"
| "truthy JNull = False"
| "truthy (JBool b) = b"
| "truthy (JNum n) = (n \<noteq> 0)"
| "truthy (JStr s) = (s \<noteq> [])"
| "truthy (JObj kvs) = True"

fun typeof :: "jsval \<Rightarrow> string" where
  "typeof JUndefined = ''undefined''"
| "typeof JNull = ''object''"
| "typeof (JBool b) = ''boolean''"
| "typeof (JNum n) = ''number''"
| "typeof (JStr s) = ''string''"
| "typeof (JObj kvs) = ''object''"

text \<open>
  Property access \<^verbatim>\<open>v.k\<close>. A property that an object does not have reads as undefined.
  The source reads a property only behind the guard \<^verbatim>\<open>!task || typeof task !== 'object'\<close>,
  so the access never meets undefined or null.
\<close>

fun get :: "jsval \<Rightarrow> string \<Rightarrow> jsval" where
  "get (JObj kvs) k = (case map_of kvs k of Some v \<Rightarrow> v | None \<Rightarrow> JUndefined)"
| "get v k = JUndefined"

text \<open>\<^verbatim>\<open>a || b\<close>\<close>

definition js_or :: "jsval \<Rightarrow> jsval \<Rightarrow> jsval" where
  "js_or a b = (if truthy a then a else b)"

text \<open>
  The batch handed to a policy: \<^verbatim>\<open>Array.isArray(tasks)\<close> holds of \<open>Array ts\<close> only.
\<close>

datatype batch = NotArray jsval | Array "jsval list"


section \<open>Errors\<close>

text \<open>
  The two error classes of \<^verbatim>\<open>taskRunner.js\<close>, each with its message and its context
  fields, and two errors of the language, which carry a message only: the plain
  \<^verbatim>\<open>Error\<close>, and the \<^verbatim>\<open>TypeError\<close> that the language throws when it cannot turn a value
  into a string or a number.
\<close>

datatype error =
    Error string
  | TypeError string
  | TaskValidationError string jsval
  | TaskProcessingError string jsval jsval


section \<open>Values as strings and as delays\<close>

text \<open>Decimal digits of a natural number, for the numbers inside template strings.\<close>

fun digits :: "nat \<Rightarrow> string" where
  "digits n = (if n < 10 then [''0123456789'' ! n]
               else digits (n div 10) @ [''0123456789'' ! (n mod 10)])"

declare digits.simps [simp del]

text \<open>
  The string a template literal \<^verbatim>\<open>${v}\<close> inserts, or the error it throws. A record
  prints as \<^verbatim>\<open>[object Object]\<close> through the method it inherits. A record with a property
  of its own called \<^verbatim>\<open>toString\<close> hides that method behind a value that cannot be called,
  and the conversion throws a TypeError. A safe integer prints as its decimal digits.
\<close>

fun to_string :: "jsval \<Rightarrow> error + string" where
  "to_string JUndefined = Inr ''undefined''"
| "to_string JNull = Inr ''null''"
| "to_string (JBool b) = Inr (if b then ''true'' else ''false'')"
| "to_string (JNum n) = Inr (if n < 0 then ''-'' @ digits (nat (- n)) else digits (nat n))"
| "to_string (JStr s) = Inr s"
| "to_string (JObj kvs) =
     (case map_of kvs ''toString'' of
        None \<Rightarrow> Inr ''[object Object]''
      | Some v \<Rightarrow> Inl (TypeError ''Cannot convert object to primitive value''))"

text \<open>
  A template literal, as the list of its parts from left to right: the text between the
  substitutions is \<open>Inr\<close>, a substitution is the conversion of its value. The first
  conversion that throws ends the evaluation.
\<close>

fun template :: "(error + string) list \<Rightarrow> error + string" where
  "template [] = Inr []"
| "template (part # parts) =
     (case part of
        Inl e \<Rightarrow> Inl e
      | Inr s \<Rightarrow> (case template parts of Inl e \<Rightarrow> Inl e | Inr rest \<Rightarrow> Inr (s @ rest)))"

declare template.simps [simp del]

text \<open>
  The wait of a timer whose delay is the number \<open>n\<close>. A delay from 1 to \<open>2^31 - 1\<close> is
  waited for as it is; a negative delay and a delay above \<open>2^31 - 1\<close> are run by Node
  with a delay of 1. A delay of 0 waits no time on the virtual clock: its callback runs in
  a later turn of the event loop, at the same time.
\<close>

definition clamp_ms :: "int \<Rightarrow> nat" where
  "clamp_ms n = (if n = 0 then 0 else if 1 \<le> n \<and> n \<le> 2147483647 then nat n else 1)"

text \<open>The number a string of decimal digits writes.\<close>

fun digits_value :: "string \<Rightarrow> nat" where
  "digits_value s = foldl (\<lambda>n c. 10 * n + (of_char c - 48)) 0 s"

text \<open>
  The wait \<^verbatim>\<open>setTimeout\<close> gives to its delay argument, or the error it throws. The
  argument is turned into a number first: undefined and a record are not a number, and
  are run with a delay of 1; a record with a \<^verbatim>\<open>toString\<close> of its own cannot be converted,
  and \<^verbatim>\<open>setTimeout\<close> throws. Of the strings, the empty one is 0 and a run of decimal digits
  is the number it writes; every other string is taken for not a number here, which
  leaves aside the signed, fractional, exponent, hexadecimal and padded forms that the
  language reads as numbers too.
\<close>

fun timer_ms :: "jsval \<Rightarrow> error + nat" where
  "timer_ms (JNum n) = Inr (clamp_ms n)"
| "timer_ms JUndefined = Inr 1"
| "timer_ms JNull = Inr 0"
| "timer_ms (JBool b) = Inr (if b then 1 else 0)"
| "timer_ms (JStr s) =
     Inr (if list_all (\<lambda>c. c \<in> set ''0123456789'') s then clamp_ms (int (digits_value s)) else 1)"
| "timer_ms (JObj kvs) =
     (case map_of kvs ''toString'' of
        None \<Rightarrow> Inr 1
      | Some v \<Rightarrow> Inl (TypeError ''Cannot convert object to primitive value''))"


section \<open>Timers and promises on a virtual clock\<close>

text \<open>
  Time is a virtual clock in milliseconds. Synchronous code takes no time; the clock moves
  only when a timer fires. \<^verbatim>\<open>setTimeout(f, ms)\<close> called at time \<open>t\<close> is recorded as the
  timer \<open>\<lparr>set_at = t, after_ms = ms\<rparr>\<close>, and \<open>f\<close> runs at \<open>t + ms\<close>. Timers due at the
  same time fire in the order in which they were set. Once set, a timer is never cleared
  (the source never calls \<^verbatim>\<open>clearTimeout\<close>).
\<close>

record timer =
  set_at :: nat
  after_ms :: nat

text \<open>
  A promise is described by how it ends: the outcome (\<open>Inl\<close> a rejection, \<open>Inr\<close> a
  fulfilment), the time at which it settles, and the timers that were set on the way.
  A promise that set no timer was settled by the call that made it, in the same turn of
  the event loop.
\<close>

record 'a promise =
  outcome :: "error + 'a"
  settled_at :: nat
  timers :: "timer list"

text \<open>
  An error-first completion handler is described by its one invocation: the two arguments
  (\<open>None\<close> is \<^verbatim>\<open>null\<close>), the time of the call, and the timers set before it.
\<close>

record 'a callback_call =
  cb_error :: "error option"
  cb_result :: "'a option"
  called_at :: nat
  cb_timers :: "timer list"

text \<open>
  What comes of a call. \<open>Completes r\<close>: the promise it returns settles, or the handler it
  was given is called, as \<open>r\<close> describes. \<open>Crashes e t ts\<close>: at time \<open>t\<close> a timer callback
  throws \<open>e\<close> with nothing to catch it, after the timers \<open>ts\<close> were set; Node ends the
  process there, so the promise never settles and the handler is never called. A run is
  described up to the settling of its promise or the call of its handler; what a timer
  still pending does after that is not part of it.
\<close>

datatype 'r run = Completes 'r | Crashes error nat "timer list"

fun happens_at :: "'a promise run \<Rightarrow> nat" where
  "happens_at (Completes p) = settled_at p"
| "happens_at (Crashes e t ts) = t"

fun in_making_turn :: "'a promise run \<Rightarrow> bool" where
  "in_making_turn (Completes p) = (timers p = [])"
| "in_making_turn (Crashes e t ts) = False"

fun timers_of :: "'a promise run \<Rightarrow> timer list" where
  "timers_of (Completes p) = timers p"
| "timers_of (Crashes e t ts) = ts"

text \<open>
  \<open>settles_before q p\<close>: of two promises made in the same turn, what comes of \<open>q\<close> happens
  strictly before what comes of \<open>p\<close>. An earlier time comes first; at the same time, a
  promise settled in the making turn comes before anything that waits for a timer, since
  reactions to settled promises run before any timer callback.
\<close>

definition settles_before :: "'a promise run \<Rightarrow> 'a promise run \<Rightarrow> bool" where
  "settles_before q p =
     (happens_at q < happens_at p \<or>
      (happens_at q = happens_at p \<and> in_making_turn q \<and> \<not> in_making_turn p))"

text \<open>
  The first thing to happen among a non-empty sequence of promises. Among those that
  happen together the earliest in the sequence is kept: their reactions were registered,
  and their timers set, in that order.
\<close>

fun first_settled :: "'a promise run \<Rightarrow> 'a promise run list \<Rightarrow> 'a promise run" where
  "first_settled p [] = p"
| "first_settled p (q # qs) = first_settled (if settles_before q p then q else p) qs"

text \<open>
  \<^verbatim>\<open>Promise.race\<close> over a non-empty array, given as its first element and the rest: it
  settles as the first of them to settle does, unless the process has ended before. The
  timers of the others stay set.
\<close>

definition Promise_race :: "'a promise run \<Rightarrow> 'a promise run list \<Rightarrow> 'a promise run" where
  "Promise_race p ps =
     (case first_settled p ps of
        Completes winner \<Rightarrow>
          Completes \<lparr>outcome = outcome winner, settled_at = settled_at winner,
                     timers = concat (map timers_of (p # ps))\<rparr>
      | Crashes e t ts \<Rightarrow> Crashes e t (concat (map timers_of (p # ps))))"

text \<open>
  What can end the wait of a promise that waits for a whole list: the rejections, each as
  the rejection it passes on, and the uncaught throws, in list order.
\<close>

fun failures :: "'a promise run list \<Rightarrow> 'b promise run list" where
  "failures [] = []"
| "failures (Crashes e t ts # ps) = Crashes e t ts # failures ps"
| "failures (Completes p # ps) =
     (case outcome p of
        Inl e \<Rightarrow>
          Completes \<lparr>outcome = Inl e, settled_at = settled_at p, timers = timers p\<rparr> # failures ps
      | Inr v \<Rightarrow> failures ps)"

text \<open>The values of the fulfilled promises of a list, in list order.\<close>

fun fulfilments :: "'a promise run list \<Rightarrow> 'a list" where
  "fulfilments [] = []"
| "fulfilments (Crashes e t ts # ps) = fulfilments ps"
| "fulfilments (Completes p # ps) =
     (case outcome p of
        Inl e \<Rightarrow> fulfilments ps
      | Inr v \<Rightarrow> v # fulfilments ps)"

text \<open>
  \<^verbatim>\<open>Promise.all\<close> called at time \<open>now\<close>: rejected as the first rejection to settle, if
  there is one and the process has not ended before; otherwise fulfilled, when the last
  promise is, with the values in the order of the array. Every timer of every promise
  stays set.
\<close>

definition Promise_all :: "nat \<Rightarrow> 'a promise run list \<Rightarrow> 'a list promise run" where
  "Promise_all now ps =
     (case failures ps of
        [] \<Rightarrow>
          Completes \<lparr>outcome = Inr (fulfilments ps), settled_at = fold max (map happens_at ps) now,
                     timers = concat (map timers_of ps)\<rparr>
      | r # rs \<Rightarrow>
          (case first_settled r rs of
             Completes first \<Rightarrow> Completes (first\<lparr>timers := concat (map timers_of ps)\<rparr>)
           | Crashes e t ts \<Rightarrow> Crashes e t (concat (map timers_of ps))))"


section \<open>Utility functions\<close>

text \<open>
  \<^verbatim>\<open>delay(ms)\<close> called at time \<open>now\<close>: one timer, and a promise fulfilled when it fires.
  \<^verbatim>\<open>setTimeout\<close> is called inside the executor of the promise, so what it throws rejects
  the promise.
\<close>

definition delay :: "nat \<Rightarrow> jsval \<Rightarrow> unit promise run" where
  "delay now ms =
     (case timer_ms ms of
        Inl e \<Rightarrow> Completes \<lparr>outcome = Inl e, settled_at = now, timers = []\<rparr>
      | Inr n \<Rightarrow>
          Completes \<lparr>outcome = Inr (), settled_at = now + n,
                     timers = [\<lparr>set_at = now, after_ms = n\<rparr>]\<rparr>)"

text \<open>
  \<^verbatim>\<open>validateTask(task)\<close> returns nothing or throws; the thrown error is \<open>Inl\<close>. The three
  checks are in the order of the source. The message of the TaskProcessingError is a
  template over the name, evaluated before the error is made.
\<close>

definition validateTask :: "jsval \<Rightarrow> error + unit" where
  \<open>validateTask task =
     (if \<not> truthy task \<or> typeof task \<noteq> ''object'' then
        Inl (TaskValidationError ''Task must be an object'' task)
      else if \<not> truthy (get task ''id'') \<or> \<not> truthy (get task ''name'') then
        Inl (TaskValidationError ''Task must have id and name properties'' task)
      else if get task ''type'' = JStr ''error'' then
        (case template [Inr ''Cannot process task "'', to_string (get task ''name''),
                        Inr ''" - simulated error for demonstration''] of
           Inl e \<Rightarrow> Inl e
         | Inr message \<Rightarrow> Inl (TaskProcessingError message (get task ''id'') (get task ''name'')))
      else Inr ())\<close>


section \<open>Callback-based implementation\<close>

text \<open>
  \<^verbatim>\<open>processTaskCallback(task, callback)\<close> called at time \<open>now\<close>. The whole body is deferred
  by a timer of 0 ms; validation runs when that timer fires, and only a descriptor that
  passes it gets the second timer, the processing delay. What \<^verbatim>\<open>validateTask\<close> or the
  second \<^verbatim>\<open>setTimeout\<close> throws is caught and handed to the handler. The summary is made in
  the callback of the second timer, outside the \<^verbatim>\<open>try\<close>: what its template throws is
  caught by nothing.
\<close>

definition processTaskCallback :: "nat \<Rightarrow> jsval \<Rightarrow> string callback_call run" where
  \<open>processTaskCallback now task =
     (let deferral = \<lparr>set_at = now, after_ms = clamp_ms 0\<rparr>;
          now' = now + clamp_ms 0
      in case validateTask task of
           Inl error \<Rightarrow>
             Completes \<lparr>cb_error = Some error, cb_result = None, called_at = now',
                        cb_timers = [deferral]\<rparr>
         | Inr u \<Rightarrow>
             (let duration = js_or (get task ''duration'') (JNum 300)
              in case timer_ms duration of
                   Inl error \<Rightarrow>
                     Completes \<lparr>cb_error = Some error, cb_result = None, called_at = now',
                                cb_timers = [deferral]\<rparr>
                 | Inr ms \<Rightarrow>
                     (case template [Inr ''Task "'', to_string (get task ''name''),
                                     Inr ''" (ID: '', to_string (get task ''id''),
                                     Inr '') completed successfully in '', to_string duration,
                                     Inr ''ms''] of
                        Inl e \<Rightarrow>
                          Crashes e (now' + ms) [deferral, \<lparr>set_at = now', after_ms = ms\<rparr>]
                      | Inr result \<Rightarrow>
                          Completes \<lparr>cb_error = None, cb_result = Some result,
                                     called_at = now' + ms,
                                     cb_timers = [deferral, \<lparr>set_at = now', after_ms = ms\<rparr>]\<rparr>)))\<close>

text \<open>
  The chain \<^verbatim>\<open>processNext\<close> of \<^verbatim>\<open>processTasksCallbacks\<close>, with the variables it closes
  over as arguments: the array, \<^verbatim>\<open>index\<close>, \<^verbatim>\<open>results\<close>, the clock and the timers set so
  far. \<^verbatim>\<open>results.push(result)\<close> stores the handler's second argument as it comes.
\<close>

function processNext ::
  "jsval list \<Rightarrow> nat \<Rightarrow> string option list \<Rightarrow> nat \<Rightarrow> timer list
     \<Rightarrow> string option list callback_call run" where
  "processNext tasks index results now log =
     (if index \<ge> length tasks then
        Completes \<lparr>cb_error = None, cb_result = Some results, called_at = now, cb_timers = log\<rparr>
      else
        (let task = tasks ! index
         in case processTaskCallback now task of
              Crashes e t ts \<Rightarrow> Crashes e t (log @ ts)
            | Completes call \<Rightarrow>
                (case cb_error call of
                   Some error \<Rightarrow>
                     Completes \<lparr>cb_error = Some error, cb_result = Some results,
                                called_at = called_at call, cb_timers = log @ cb_timers call\<rparr>
                 | None \<Rightarrow>
                     processNext tasks (index + 1) (results @ [cb_result call]) (called_at call)
                       (log @ cb_timers call))))"
  by pat_completeness auto

termination
  by (relation "measure (\<lambda>(tasks, index, results, now, log). length tasks - index)") auto

declare processNext.simps [simp del]

definition processTasksCallbacks ::
  "nat \<Rightarrow> batch \<Rightarrow> string option list callback_call run" where
  "processTasksCallbacks now tasks =
     (case tasks of
        NotArray v \<Rightarrow>
          Completes \<lparr>cb_error = Some (Error ''Tasks must be a non-empty array''), cb_result = None,
                     called_at = now, cb_timers = []\<rparr>
      | Array ts \<Rightarrow>
          if length ts = 0 then
            Completes \<lparr>cb_error = Some (Error ''Tasks must be a non-empty array''),
                       cb_result = None, called_at = now, cb_timers = []\<rparr>
          else processNext ts 0 [] now [])"


section \<open>Promise-based implementation\<close>

text \<open>
  \<^verbatim>\<open>processTaskPromise(task)\<close> called at time \<open>now\<close>. The executor of the promise runs
  inside the call: what \<^verbatim>\<open>validateTask\<close> or \<^verbatim>\<open>setTimeout\<close> throws there is caught and
  rejects the promise, with no timer. Any other descriptor has the processing timer set.
  The summary is made when the timer fires, in its callback, outside the \<^verbatim>\<open>try\<close>: the
  promise is fulfilled with it, and what the template throws is caught by nothing.
\<close>

definition processTaskPromise :: "nat \<Rightarrow> jsval \<Rightarrow> string promise run" where
  \<open>processTaskPromise now task =
     (case validateTask task of
        Inl error \<Rightarrow> Completes \<lparr>outcome = Inl error, settled_at = now, timers = []\<rparr>
      | Inr u \<Rightarrow>
          (let duration = js_or (get task ''duration'') (JNum 300)
           in case timer_ms duration of
                Inl error \<Rightarrow> Completes \<lparr>outcome = Inl error, settled_at = now, timers = []\<rparr>
              | Inr ms \<Rightarrow>
                  (case template [Inr ''Task "'', to_string (get task ''name''),
                                  Inr ''" (ID: '', to_string (get task ''id''),
                                  Inr '') completed successfully in '', to_string duration,
                                  Inr ''ms''] of
                     Inl e \<Rightarrow> Crashes e (now + ms) [\<lparr>set_at = now, after_ms = ms\<rparr>]
                   | Inr result \<Rightarrow>
                       Completes \<lparr>outcome = Inr result, settled_at = now + ms,
                                  timers = [\<lparr>set_at = now, after_ms = ms\<rparr>]\<rparr>)))\<close>

text \<open>
  The loop \<^verbatim>\<open>for (const task of tasks)\<close> of \<^verbatim>\<open>processTasksPromises\<close>: each promise is
  made when the one before it has settled; a rejection is thrown on and ends the loop.
\<close>

fun processTasksPromises_loop ::
  "nat \<Rightarrow> string list \<Rightarrow> timer list \<Rightarrow> jsval list \<Rightarrow> string list promise run" where
  "processTasksPromises_loop now results log [] =
     Completes \<lparr>outcome = Inr results, settled_at = now, timers = log\<rparr>"
| "processTasksPromises_loop now results log (task # rest) =
     (case processTaskPromise now task of
        Crashes e t ts \<Rightarrow> Crashes e t (log @ ts)
      | Completes p \<Rightarrow>
          (case outcome p of
             Inl error \<Rightarrow>
               Completes \<lparr>outcome = Inl error, settled_at = settled_at p, timers = log @ timers p\<rparr>
           | Inr result \<Rightarrow>
               processTasksPromises_loop (settled_at p) (results @ [result]) (log @ timers p)
                 rest))"

definition processTasksPromises :: "nat \<Rightarrow> batch \<Rightarrow> string list promise run" where
  "processTasksPromises now tasks =
     (case tasks of
        NotArray v \<Rightarrow>
          Completes \<lparr>outcome = Inl (Error ''Tasks must be a non-empty array''), settled_at = now,
                     timers = []\<rparr>
      | Array ts \<Rightarrow>
          if length ts = 0 then
            Completes \<lparr>outcome = Inl (Error ''Tasks must be a non-empty array''), settled_at = now,
                       timers = []\<rparr>
          else processTasksPromises_loop now [] [] ts)"

definition processTasksParallel :: "nat \<Rightarrow> batch \<Rightarrow> string list promise run" where
  "processTasksParallel now tasks =
     (case tasks of
        NotArray v \<Rightarrow>
          Completes \<lparr>outcome = Inl (Error ''Tasks must be a non-empty array''), settled_at = now,
                     timers = []\<rparr>
      | Array ts \<Rightarrow>
          if length ts = 0 then
            Completes \<lparr>outcome = Inl (Error ''Tasks must be a non-empty array''), settled_at = now,
                       timers = []\<rparr>
          else
            (let taskPromises = map (\<lambda>task. processTaskPromise now task) ts
             in Promise_all now taskPromises))"

definition processTasksRace :: "nat \<Rightarrow> batch \<Rightarrow> string promise run" where
  "processTasksRace now tasks =
     (case tasks of
        NotArray v \<Rightarrow>
          Completes \<lparr>outcome = Inl (Error ''Tasks must be a non-empty array''), settled_at = now,
                     timers = []\<rparr>
      | Array [] \<Rightarrow>
          Completes \<lparr>outcome = Inl (Error ''Tasks must be a non-empty array''), settled_at = now,
                     timers = []\<rparr>
      | Array (t # ts) \<Rightarrow>
          Promise_race (processTaskPromise now t) (map (\<lambda>task. processTaskPromise now task) ts))"


section \<open>Async/await implementation\<close>

text \<open>
  \<^verbatim>\<open>processTaskAsync(task)\<close> called at time \<open>now\<close>. An async function runs up to its first
  \<^verbatim>\<open>await\<close> inside the call, so a throw of \<^verbatim>\<open>validateTask\<close> rejects the returned promise
  there; otherwise the function waits for \<^verbatim>\<open>delay(duration)\<close>, which may itself be
  rejected, and returns the summary. The template of the summary is evaluated inside the
  async function: what it throws rejects the returned promise.
\<close>

definition processTaskAsync :: "nat \<Rightarrow> jsval \<Rightarrow> string promise run" where
  \<open>processTaskAsync now task =
     (case validateTask task of
        Inl error \<Rightarrow> Completes \<lparr>outcome = Inl error, settled_at = now, timers = []\<rparr>
      | Inr u \<Rightarrow>
          (let duration = js_or (get task ''duration'') (JNum 300)
           in case delay now duration of
                Crashes e t ts \<Rightarrow> Crashes e t ts
              | Completes waited \<Rightarrow>
                  (case outcome waited of
                     Inl error \<Rightarrow>
                       Completes \<lparr>outcome = Inl error, settled_at = settled_at waited,
                                  timers = timers waited\<rparr>
                   | Inr u \<Rightarrow>
                       (case template [Inr ''Task "'', to_string (get task ''name''),
                                       Inr ''" (ID: '', to_string (get task ''id''),
                                       Inr '') completed successfully in '', to_string duration,
                                       Inr ''ms''] of
                          Inl error \<Rightarrow>
                            Completes \<lparr>outcome = Inl error, settled_at = settled_at waited,
                                       timers = timers waited\<rparr>
                        | Inr result \<Rightarrow>
                            Completes \<lparr>outcome = Inr result, settled_at = settled_at waited,
                                       timers = timers waited\<rparr>))))\<close>

text \<open>
  The loop of \<^verbatim>\<open>processTasksAsyncAwait\<close>. Each branch of its \<^verbatim>\<open>catch\<close> logs and throws the
  error on; the console is not part of the model.
\<close>

fun processTasksAsyncAwait_loop ::
  "nat \<Rightarrow> string list \<Rightarrow> timer list \<Rightarrow> jsval list \<Rightarrow> string list promise run" where
  "processTasksAsyncAwait_loop now results log [] =
     Completes \<lparr>outcome = Inr results, settled_at = now, timers = log\<rparr>"
| "processTasksAsyncAwait_loop now results log (task # rest) =
     (case processTaskAsync now task of
        Crashes e t ts \<Rightarrow> Crashes e t (log @ ts)
      | Completes p \<Rightarrow>
          (case outcome p of
             Inl error \<Rightarrow>
               Completes \<lparr>outcome = Inl error, settled_at = settled_at p, timers = log @ timers p\<rparr>
           | Inr result \<Rightarrow>
               processTasksAsyncAwait_loop (settled_at p) (results @ [result]) (log @ timers p)
                 rest))"

definition processTasksAsyncAwait :: "nat \<Rightarrow> batch \<Rightarrow> string list promise run" where
  "processTasksAsyncAwait now tasks =
     (case tasks of
        NotArray v \<Rightarrow>
          Completes \<lparr>outcome = Inl (Error ''Tasks must be a non-empty array''), settled_at = now,
                     timers = []\<rparr>
      | Array ts \<Rightarrow>
          if length ts = 0 then
            Completes \<lparr>outcome = Inl (Error ''Tasks must be a non-empty array''), settled_at = now,
                       timers = []\<rparr>
          else processTasksAsyncAwait_loop now [] [] ts)"

definition processTasksParallelAsync :: "nat \<Rightarrow> batch \<Rightarrow> string list promise run" where
  "processTasksParallelAsync now tasks =
     (case tasks of
        NotArray v \<Rightarrow>
          Completes \<lparr>outcome = Inl (Error ''Tasks must be a non-empty array''), settled_at = now,
                     timers = []\<rparr>
      | Array ts \<Rightarrow>
          if length ts = 0 then
            Completes \<lparr>outcome = Inl (Error ''Tasks must be a non-empty array''), settled_at = now,
                       timers = []\<rparr>
          else
            (let taskPromises = map (\<lambda>task. processTaskAsync now task) ts
             in Promise_all now taskPromises))"

definition processTasksRaceAsync :: "nat \<Rightarrow> batch \<Rightarrow> string promise run" where
  "processTasksRaceAsync now tasks =
     (case tasks of
        NotArray v \<Rightarrow>
          Completes \<lparr>outcome = Inl (Error ''Tasks must be a non-empty array''), settled_at = now,
                     timers = []\<rparr>
      | Array [] \<Rightarrow>
          Completes \<lparr>outcome = Inl (Error ''Tasks must be a non-empty array''), settled_at = now,
                     timers = []\<rparr>
      | Array (t # ts) \<Rightarrow>
          Promise_race (processTaskAsync now t) (map (\<lambda>task. processTaskAsync now task) ts))"


section \<open>The promise version of asyncTasks.js\<close>

text \<open>
  \<^verbatim>\<open>asyncTasks.js\<close> is the first demo of the repository, with functions of the same names
  and no validation. Its descriptors are the records of its own table, so here a descriptor
  is a list of properties. \<^verbatim>\<open>processTaskPromise\<close> waits the duration of the descriptor and
  only then looks at \<^verbatim>\<open>shouldFail\<close>; \<^verbatim>\<open>processTasksPromises\<close> is \<^verbatim>\<open>Promise.all\<close> over the
  array as it comes.
\<close>

definition asyncTasks_processTaskPromise ::
  "nat \<Rightarrow> (string \<times> jsval) list \<Rightarrow> jsval promise run" where
  \<open>asyncTasks_processTaskPromise now task =
     (case timer_ms (get (JObj task) ''duration'') of
        Inl error \<Rightarrow> Completes \<lparr>outcome = Inl error, settled_at = now, timers = []\<rparr>
      | Inr ms \<Rightarrow>
          if truthy (get (JObj task) ''shouldFail'') then
            (case template [Inr ''Task "'', to_string (get (JObj task) ''name''),
                            Inr ''" failed''] of
               Inl e \<Rightarrow> Crashes e (now + ms) [\<lparr>set_at = now, after_ms = ms\<rparr>]
             | Inr message \<Rightarrow>
                 Completes \<lparr>outcome = Inl (Error message), settled_at = now + ms,
                            timers = [\<lparr>set_at = now, after_ms = ms\<rparr>]\<rparr>)
          else
            Completes
              \<lparr>outcome =
                 Inr (JObj [(''taskId'', get (JObj task) ''id''),
                            (''taskName'', get (JObj task) ''name''),
                            (''status'', JStr ''completed''),
                            (''duration'', get (JObj task) ''duration'')]),
               settled_at = now + ms, timers = [\<lparr>set_at = now, after_ms = ms\<rparr>]\<rparr>)\<close>

definition asyncTasks_processTasksPromises ::
  "nat \<Rightarrow> (string \<times> jsval) list list \<Rightarrow> jsval list promise run" where
  "asyncTasks_processTasksPromises now tasks =
     (let promises = map (\<lambda>task. asyncTasks_processTaskPromise now task) tasks
      in Promise_all now promises)"

section \<open>Terms of the specification\<close>

text \<open>
  A descriptor passes the shape check when it is a record whose \<^verbatim>\<open>id\<close> and \<^verbatim>\<open>name\<close> are
  there and are not falsy.
\<close>

fun well_formed :: "jsval \<Rightarrow> bool" where
  "well_formed (JObj kvs) =
     (truthy (get (JObj kvs) ''id'') \<and> truthy (get (JObj kvs) ''name''))"
| "well_formed v = False"

text \<open>
  The invalid descriptors the specification lists: an absent one, one that is not a
  record, and a record that lacks \<^verbatim>\<open>id\<close> or \<^verbatim>\<open>name\<close>.
\<close>

fun invalid_descriptor :: "jsval \<Rightarrow> bool" where
  "invalid_descriptor (JObj kvs) = (map_of kvs ''id'' = None \<or> map_of kvs ''name'' = None)"
| "invalid_descriptor v = True"

text \<open>A descriptor tagged to simulate a failure.\<close>

definition error_tagged :: "jsval \<Rightarrow> bool" where
  "error_tagged task = (get task ''type'' = JStr ''error'')"

text \<open>
  The duration field as the data model has it: absent, or an integer that is not negative,
  within what a timer can wait for, \<open>2^31 - 1\<close> milliseconds.
\<close>

definition numeric_duration :: "jsval \<Rightarrow> bool" where
  "numeric_duration task =
     (case get task ''duration'' of
        JUndefined \<Rightarrow> True
      | JNum n \<Rightarrow> 0 \<le> n \<and> n \<le> 2147483647
      | v \<Rightarrow> False)"

text \<open>
  A value that a template prints without throwing, as \<open>to_string\<close> says: any value but a
  record with a \<^verbatim>\<open>toString\<close> of its own and an integer that is not safe.
\<close>

fun printable :: "jsval \<Rightarrow> bool" where
  "printable (JObj kvs) = (map_of kvs ''toString'' = None)"
| "printable (JNum n) = (- 9007199254740991 \<le> n \<and> n \<le> 9007199254740991)"
| "printable v = True"

text \<open>
  An ordinary descriptor: its \<^verbatim>\<open>id\<close> and \<^verbatim>\<open>name\<close> are printable and its duration is as the
  data model has it. A descriptor that lacks a field is ordinary in that field.
\<close>

definition ordinary :: "jsval \<Rightarrow> bool" where
  "ordinary task =
     (printable (get task ''id'') \<and> printable (get task ''name'') \<and> numeric_duration task)"

text \<open>What a printable value prints as.\<close>

definition printed :: "jsval \<Rightarrow> string" where
  "printed v = (case to_string v of Inr s \<Rightarrow> s | Inl e \<Rightarrow> [])"

text \<open>The success summary of an ordinary descriptor.\<close>

definition summary :: "jsval \<Rightarrow> string" where
  \<open>summary task =
     ''Task "'' @ printed (get task ''name'') @ ''" (ID: '' @ printed (get task ''id'')
       @ '') completed successfully in '' @ printed (js_or (get task ''duration'') (JNum 300))
       @ ''ms''\<close>

text \<open>
  The wait of a descriptor, in milliseconds: its duration when that is a number other
  than 0, and 300 otherwise.
\<close>

definition wait_ms :: "jsval \<Rightarrow> nat" where
  "wait_ms task = (case get task ''duration'' of JNum n \<Rightarrow> if n = 0 then 300 else nat n | v \<Rightarrow> 300)"

text \<open>A record with one of its fields taken away.\<close>

fun without :: "string \<Rightarrow> jsval \<Rightarrow> jsval" where
  "without k (JObj kvs) = JObj (filter (\<lambda>kv. fst kv \<noteq> k) kvs)"
| "without k v = v"

text \<open>The two error kinds of the taxonomy.\<close>

fun taxonomy_error :: "error \<Rightarrow> bool" where
  "taxonomy_error (TaskValidationError m t) = True"
| "taxonomy_error (TaskProcessingError m i n) = True"
| "taxonomy_error (Error m) = False"
| "taxonomy_error (TypeError m) = False"

text \<open>A batch that is no list, or an empty one.\<close>

fun unusable_batch :: "batch \<Rightarrow> bool" where
  "unusable_batch (NotArray v) = True"
| "unusable_batch (Array ts) = (ts = [])"

text \<open>Descriptors for the examples.\<close>

definition sample_report :: jsval where
  "sample_report =
     JObj [(''id'', JNum 1), (''name'', JStr ''Report''), (''type'', JStr ''compute''),
           (''duration'', JNum 500)]"

definition sample_email :: jsval where
  "sample_email =
     JObj [(''id'', JNum 2), (''name'', JStr ''Email''), (''type'', JStr ''io''),
           (''duration'', JNum 100)]"

definition sample_backup :: jsval where
  "sample_backup =
     JObj [(''id'', JNum 3), (''name'', JStr ''Backup''), (''type'', JStr ''io''),
           (''duration'', JNum 300)]"

definition sample_failing :: jsval where
  "sample_failing =
     JObj [(''id'', JNum 4), (''name'', JStr ''Broken''), (''type'', JStr ''error''),
           (''duration'', JNum 500)]"

definition sample_instant :: jsval where
  "sample_instant =
     JObj [(''id'', JNum 5), (''name'', JStr ''Ping''), (''type'', JStr ''io''),
           (''duration'', JNum 0)]"

definition sample_nameless :: jsval where
  "sample_nameless = JObj [(''id'', JNum 6), (''type'', JStr ''io''), (''duration'', JNum 200)]"

definition sample_plain :: jsval where
  "sample_plain = JObj [(''id'', JNum 7), (''name'', JStr ''Plain'')]"

definition sample_zero_id :: jsval where
  "sample_zero_id = JObj [(''id'', JNum 0), (''name'', JStr ''Zero''), (''duration'', JNum 200)]"

definition sample_tagged_nameless :: jsval where
  "sample_tagged_nameless = JObj [(''id'', JNum 8), (''type'', JStr ''error'')]"

definition sample_unprintable :: jsval where
  "sample_unprintable =
     JObj [(''id'', JNum 1), (''name'', JObj [(''toString'', JNum 1)])]"

lemmas sample_defs =
  sample_report_def sample_email_def sample_backup_def sample_failing_def
  sample_instant_def sample_nameless_def sample_plain_def sample_zero_id_def
  sample_tagged_nameless_def sample_unprintable_def

section \<open>Validation and the three calling conventions\<close>

lemma printable_to_string: "printable v \<Longrightarrow> to_string v = Inr (printed v)"
  by (cases v) (auto simp: printed_def)



lemma validateTask_shape:
  "\<not> well_formed task \<Longrightarrow>
     validateTask task =
       Inl (TaskValidationError
              (if \<not> truthy task \<or> typeof task \<noteq> ''object'' then ''Task must be an object''
               else ''Task must have id and name properties'') task)"
  by (cases task) (auto simp: validateTask_def)

lemma validateTask_tagged:
  \<open>well_formed task \<Longrightarrow> error_tagged task \<Longrightarrow> printable (get task ''name'') \<Longrightarrow>
     validateTask task =
       Inl (TaskProcessingError
              (''Cannot process task "'' @ printed (get task ''name'')
                 @ ''" - simulated error for demonstration'')
              (get task ''id'') (get task ''name''))\<close>
  by (cases task) (auto simp: validateTask_def error_tagged_def printable_to_string template.simps)


lemma validateTask_passes:
  "validateTask task = Inr () \<longleftrightarrow> well_formed task \<and> \<not> error_tagged task"
  by (cases task) (auto simp: validateTask_def error_tagged_def split: sum.splits)

lemma invalid_not_well_formed: "invalid_descriptor task \<Longrightarrow> \<not> well_formed task"
  by (cases task) auto

lemma timer_ms_wait:
  "numeric_duration task \<Longrightarrow>
     timer_ms (js_or (get task ''duration'') (JNum 300)) = Inr (wait_ms task)"
  by (auto simp: numeric_duration_def wait_ms_def js_or_def clamp_ms_def split: jsval.splits)

lemma duration_printable:
  "numeric_duration task \<Longrightarrow> printable (js_or (get task ''duration'') (JNum 300))"
  by (auto simp: numeric_duration_def js_or_def split: jsval.splits)

lemma summary_template:
  \<open>ordinary task \<Longrightarrow>
     template [Inr ''Task "'', to_string (get task ''name''),
               Inr ''" (ID: '', to_string (get task ''id''),
               Inr '') completed successfully in '',
               to_string (js_or (get task ''duration'') (JNum 300)),
               Inr ''ms''] = Inr (summary task)\<close>
  by (simp add: ordinary_def summary_def printable_to_string duration_printable template.simps)

lemma processTaskPromise_rejects:
  "validateTask task = Inl e \<Longrightarrow>
     processTaskPromise now task =
       Completes \<lparr>outcome = Inl e, settled_at = now, timers = []\<rparr>"
  by (simp add: processTaskPromise_def)

lemma processTaskPromise_fulfils:
  "validateTask task = Inr () \<Longrightarrow> ordinary task \<Longrightarrow>
     processTaskPromise now task =
       Completes \<lparr>outcome = Inr (summary task), settled_at = now + wait_ms task,
                  timers = [\<lparr>set_at = now, after_ms = wait_ms task\<rparr>]\<rparr>"
  by (simp add: processTaskPromise_def Let_def summary_template timer_ms_wait ordinary_def)

lemma processTaskAsync_rejects:
  "validateTask task = Inl e \<Longrightarrow>
     processTaskAsync now task =
       Completes \<lparr>outcome = Inl e, settled_at = now, timers = []\<rparr>"
  by (simp add: processTaskAsync_def)

lemma processTaskAsync_fulfils:
  "validateTask task = Inr () \<Longrightarrow> ordinary task \<Longrightarrow>
     processTaskAsync now task =
       Completes \<lparr>outcome = Inr (summary task), settled_at = now + wait_ms task,
                  timers = [\<lparr>set_at = now, after_ms = wait_ms task\<rparr>]\<rparr>"
  by (simp add: processTaskAsync_def delay_def Let_def summary_template timer_ms_wait ordinary_def)

lemma processTaskCallback_rejects:
  "validateTask task = Inl e \<Longrightarrow>
     processTaskCallback now task =
       Completes \<lparr>cb_error = Some e, cb_result = None, called_at = now,
                  cb_timers = [\<lparr>set_at = now, after_ms = 0\<rparr>]\<rparr>"
  by (simp add: processTaskCallback_def clamp_ms_def)

lemma processTaskCallback_fulfils:
  "validateTask task = Inr () \<Longrightarrow> ordinary task \<Longrightarrow>
     processTaskCallback now task =
       Completes \<lparr>cb_error = None, cb_result = Some (summary task),
                  called_at = now + wait_ms task,
                  cb_timers = [\<lparr>set_at = now, after_ms = 0\<rparr>,
                               \<lparr>set_at = now, after_ms = wait_ms task\<rparr>]\<rparr>"
  by (simp add: processTaskCallback_def clamp_ms_def Let_def summary_template timer_ms_wait
        ordinary_def)

text \<open>
  On an ordinary descriptor the three calling conventions agree in what can be observed:
  the async function is the promise function, timer for timer, and the handler of the
  callback convention gets the error of the promise and \<^verbatim>\<open>null\<close>, or \<^verbatim>\<open>null\<close> and the
  summary of the promise, at the time at which the promise settles, after one more timer,
  the 0 ms deferral.
\<close>

lemma conventions_agree_on_ordinary:
  assumes "ordinary task"
  shows "\<exists>p. processTaskPromise now task = Completes p \<and>
             processTaskAsync now task = Completes p \<and>
             processTaskCallback now task =
               Completes
                 \<lparr>cb_error = (case outcome p of Inl e \<Rightarrow> Some e | Inr r \<Rightarrow> None),
                  cb_result = (case outcome p of Inl e \<Rightarrow> None | Inr r \<Rightarrow> Some r),
                  called_at = settled_at p,
                  cb_timers = \<lparr>set_at = now, after_ms = 0\<rparr> # timers p\<rparr>"
proof (cases "validateTask task")
  case (Inl e)
  then show ?thesis
    by (simp add: processTaskPromise_rejects processTaskAsync_rejects processTaskCallback_rejects)
next
  case (Inr u)
  then have "validateTask task = Inr ()"
    by simp
  with assms show ?thesis
    by (simp add: processTaskPromise_fulfils processTaskAsync_fulfils processTaskCallback_fulfils)
qed

text \<open>
  C5. The claim is that the three calling conventions are observably equivalent for every
  descriptor. They are not for a descriptor that passes validation with a name that cannot
  be printed, here a record with a \<^verbatim>\<open>toString\<close> of its own. The async function
  evaluates the template of its summary in its own body, so its promise is rejected with
  the TypeError when the delay is over. The promise and the callback conventions evaluate
  it in the callback of the timer, outside their \<^verbatim>\<open>try\<close>: the throw is caught by nothing,
  the promise never settles and the handler is never called.
\<close>

theorem conventions_diverge_on_unprintable_name:
  "validateTask sample_unprintable = Inr () \<and>
   processTaskAsync 0 sample_unprintable =
     Completes \<lparr>outcome = Inl (TypeError ''Cannot convert object to primitive value''),
                settled_at = 300, timers = [\<lparr>set_at = 0, after_ms = 300\<rparr>]\<rparr> \<and>
   processTaskPromise 0 sample_unprintable =
     Crashes (TypeError ''Cannot convert object to primitive value'') 300
       [\<lparr>set_at = 0, after_ms = 300\<rparr>] \<and>
   processTaskCallback 0 sample_unprintable =
     Crashes (TypeError ''Cannot convert object to primitive value'') 300
       [\<lparr>set_at = 0, after_ms = 0\<rparr>, \<lparr>set_at = 0, after_ms = 300\<rparr>]"
  by (simp add: processTaskAsync_def processTaskPromise_def processTaskCallback_def delay_def
        validateTask_def sample_unprintable_def js_or_def clamp_ms_def template.simps Let_def)

theorem conventions_diverge_on_unprintable_name_witness:
  "processTaskPromise 0 sample_unprintable \<noteq> processTaskAsync 0 sample_unprintable \<and>
   processTaskCallback 0 sample_unprintable =
     Crashes (TypeError ''Cannot convert object to primitive value'') 300
       [\<lparr>set_at = 0, after_ms = 0\<rparr>, \<lparr>set_at = 0, after_ms = 300\<rparr>]"
  using conventions_diverge_on_unprintable_name
  by simp

text \<open>
  C8. An invalid descriptor (absent, not a record, or a record without \<^verbatim>\<open>id\<close> or without
  \<^verbatim>\<open>name\<close>) fails in every calling convention with a TaskValidationError that carries the
  descriptor, at the very time of the call. The promise and the async function set no
  timer at all; the callback convention sets only the 0 ms timer that defers its body,
  and no timer for a processing delay.
\<close>

theorem invalid_descriptor_fails_without_wait:
  assumes "invalid_descriptor task"
  shows "\<exists>msg.
           processTaskPromise now task =
             Completes
               \<lparr>outcome = Inl (TaskValidationError msg task), settled_at = now, timers = []\<rparr> \<and>
           processTaskAsync now task =
             Completes
               \<lparr>outcome = Inl (TaskValidationError msg task), settled_at = now, timers = []\<rparr> \<and>
           processTaskCallback now task =
             Completes
               \<lparr>cb_error = Some (TaskValidationError msg task), cb_result = None,
                called_at = now, cb_timers = [\<lparr>set_at = now, after_ms = 0\<rparr>]\<rparr>"
proof -
  from assms have "\<not> well_formed task"
    by (rule invalid_not_well_formed)
  then obtain msg where v: "validateTask task = Inl (TaskValidationError msg task)"
    using validateTask_shape by blast
  show ?thesis
    using processTaskPromise_rejects [OF v] processTaskAsync_rejects [OF v]
      processTaskCallback_rejects [OF v]
    by blast
qed

theorem invalid_descriptor_fails_without_wait_witness:
  "invalid_descriptor sample_nameless \<and>
   processTaskPromise 7 sample_nameless =
     Completes
       \<lparr>outcome = Inl (TaskValidationError ''Task must have id and name properties''
                          sample_nameless),
        settled_at = 7, timers = []\<rparr> \<and>
   processTaskCallback 7 sample_nameless =
     Completes
       \<lparr>cb_error = Some (TaskValidationError ''Task must have id and name properties''
                           sample_nameless),
        cb_result = None, called_at = 7, cb_timers = [\<lparr>set_at = 7, after_ms = 0\<rparr>]\<rparr>"
proof -
  have h: "invalid_descriptor sample_nameless"
    by (simp add: sample_nameless_def)
  from invalid_descriptor_fails_without_wait [OF h, of 7] obtain msg where
    p: "processTaskPromise 7 sample_nameless =
          Completes
            \<lparr>outcome = Inl (TaskValidationError msg sample_nameless), settled_at = 7,
             timers = []\<rparr>"
    and c: "processTaskCallback 7 sample_nameless =
          Completes
            \<lparr>cb_error = Some (TaskValidationError msg sample_nameless), cb_result = None,
             called_at = 7, cb_timers = [\<lparr>set_at = 7, after_ms = 0\<rparr>]\<rparr>"
    by blast
  have "processTaskPromise 7 sample_nameless =
          Completes
            \<lparr>outcome = Inl (TaskValidationError ''Task must have id and name properties''
                               sample_nameless),
             settled_at = 7, timers = []\<rparr>"
    by (simp add: processTaskPromise_def validateTask_def sample_nameless_def)
  with p have "msg = ''Task must have id and name properties''"
    by simp
  with h p c show ?thesis
    by simp
qed



text \<open>
  C10. A record whose \<^verbatim>\<open>id\<close> is there but is 0, or whose \<^verbatim>\<open>name\<close> is there but is the
  empty string, fails in every calling convention with the TaskValidationError
  "Task must have id and name properties", at the time of the call and with no timer for
  a processing delay: the same error kind and message as for the record with that field
  taken away.
\<close>

theorem falsy_id_or_name_fails_as_absent:
  assumes "map_of kvs ''id'' = Some (JNum 0) \<or> map_of kvs ''name'' = Some (JStr [])"
  shows "processTaskPromise now (JObj kvs) =
           Completes
             \<lparr>outcome = Inl (TaskValidationError ''Task must have id and name properties''
                                (JObj kvs)),
              settled_at = now, timers = []\<rparr> \<and>
         processTaskAsync now (JObj kvs) =
           Completes
             \<lparr>outcome = Inl (TaskValidationError ''Task must have id and name properties''
                                (JObj kvs)),
              settled_at = now, timers = []\<rparr> \<and>
         processTaskCallback now (JObj kvs) =
           Completes
             \<lparr>cb_error = Some (TaskValidationError ''Task must have id and name properties''
                                 (JObj kvs)),
              cb_result = None, called_at = now,
              cb_timers = [\<lparr>set_at = now, after_ms = 0\<rparr>]\<rparr> \<and>
         (\<forall>k \<in> {''id'', ''name''}.
            processTaskPromise now (without k (JObj kvs)) =
              Completes
                \<lparr>outcome = Inl (TaskValidationError ''Task must have id and name properties''
                                   (without k (JObj kvs))),
                 settled_at = now, timers = []\<rparr>)"
proof -
  have v: "validateTask (JObj kvs) =
             Inl (TaskValidationError ''Task must have id and name properties'' (JObj kvs))"
    using assms by (auto simp: validateTask_def)
  have absent: "map_of (filter (\<lambda>kv. fst kv \<noteq> k) kvs) k = None" for k
    by (auto simp: map_of_eq_None_iff)
  have w: "validateTask (without k (JObj kvs)) =
             Inl (TaskValidationError ''Task must have id and name properties''
                    (without k (JObj kvs)))"
    if "k \<in> {''id'', ''name''}" for k
    using that absent [of k] by (auto simp: validateTask_def)
  show ?thesis
    using processTaskPromise_rejects [OF v] processTaskPromise_rejects [OF w]
      processTaskAsync_rejects [OF v] processTaskCallback_rejects [OF v]
    by simp
qed

theorem falsy_id_or_name_fails_as_absent_witness:
  "map_of [(''id'', JNum 0), (''name'', JStr ''Zero''), (''duration'', JNum 200)] ''id''
     = Some (JNum 0) \<and>
   processTaskPromise 0 sample_zero_id =
     Completes
       \<lparr>outcome = Inl (TaskValidationError ''Task must have id and name properties''
                          sample_zero_id),
        settled_at = 0, timers = []\<rparr> \<and>
   processTaskCallback 0 sample_zero_id =
     Completes
       \<lparr>cb_error = Some (TaskValidationError ''Task must have id and name properties''
                           sample_zero_id),
        cb_result = None, called_at = 0, cb_timers = [\<lparr>set_at = 0, after_ms = 0\<rparr>]\<rparr> \<and>
   without ''id'' sample_zero_id = JObj [(''name'', JStr ''Zero''), (''duration'', JNum 200)] \<and>
   processTaskPromise 0 (without ''id'' sample_zero_id) =
     Completes
       \<lparr>outcome = Inl (TaskValidationError ''Task must have id and name properties''
                          (JObj [(''name'', JStr ''Zero''), (''duration'', JNum 200)])),
        settled_at = 0, timers = []\<rparr>"
proof -
  have h: "map_of [(''id'', JNum 0), (''name'', JStr ''Zero''), (''duration'', JNum 200)] ''id''
             = Some (JNum 0)"
    by simp
  have w: "without ''id'' sample_zero_id = JObj [(''name'', JStr ''Zero''), (''duration'', JNum 200)]"
    by (simp add: sample_zero_id_def)
  from h have "map_of [(''id'', JNum 0), (''name'', JStr ''Zero''), (''duration'', JNum 200)] ''id''
                 = Some (JNum 0) \<or>
               map_of [(''id'', JNum 0), (''name'', JStr ''Zero''), (''duration'', JNum 200)] ''name''
                 = Some (JStr [])"
    by simp
  from falsy_id_or_name_fails_as_absent [OF this, of 0] h w show ?thesis
    by (simp add: sample_zero_id_def)
qed

text \<open>
  C7, as the claim states it, fails: a descriptor whose duration is there and is 0 does
  not wait 0 ms. \<^verbatim>\<open>task.duration || 300\<close> takes the falsy 0 for a missing field, so the
  executor waits the default 300 ms.
\<close>

theorem zero_duration_waits_default_counterexample:
  \<open>well_formed sample_instant \<and> get sample_instant ''duration'' = JNum 0 \<and>
   processTaskPromise 0 sample_instant =
     Completes \<lparr>outcome = Inr ''Task "Ping" (ID: 5) completed successfully in 300ms'',
                settled_at = 300, timers = [\<lparr>set_at = 0, after_ms = 300\<rparr>]\<rparr> \<and>
   processTaskAsync 0 sample_instant =
     Completes \<lparr>outcome = Inr ''Task "Ping" (ID: 5) completed successfully in 300ms'',
                settled_at = 300, timers = [\<lparr>set_at = 0, after_ms = 300\<rparr>]\<rparr>\<close>
  by (simp add: processTaskPromise_def processTaskAsync_def delay_def validateTask_def
        sample_instant_def js_or_def clamp_ms_def template.simps Let_def digits.simps)

text \<open>
  C7, amended. Take a well-formed descriptor that is not tagged as an error, whose \<^verbatim>\<open>id\<close>
  and \<^verbatim>\<open>name\<close> are printable and whose duration is absent or an integer from 0 to
  \<open>2^31 - 1\<close>. Every calling convention succeeds after exactly \<open>wait_ms\<close> milliseconds:
  the duration when it is a positive integer, and the default 300 when the field is absent
  or is 0. The promise and the async function set that one timer; the callback convention
  sets it after its 0 ms deferral.
\<close>

theorem elapsed_wait_is_duration_or_default:
  assumes "well_formed task" and "\<not> error_tagged task" and "ordinary task"
  shows "\<exists>r. processTaskPromise now task =
               Completes \<lparr>outcome = Inr r, settled_at = now + wait_ms task,
                          timers = [\<lparr>set_at = now, after_ms = wait_ms task\<rparr>]\<rparr> \<and>
             processTaskAsync now task =
               Completes \<lparr>outcome = Inr r, settled_at = now + wait_ms task,
                          timers = [\<lparr>set_at = now, after_ms = wait_ms task\<rparr>]\<rparr> \<and>
             processTaskCallback now task =
               Completes \<lparr>cb_error = None, cb_result = Some r,
                          called_at = now + wait_ms task,
                          cb_timers = [\<lparr>set_at = now, after_ms = 0\<rparr>,
                                       \<lparr>set_at = now, after_ms = wait_ms task\<rparr>]\<rparr> \<and>
             wait_ms task =
               (case get task ''duration'' of
                  JNum n \<Rightarrow> if 0 < n then nat n else 300
                | v \<Rightarrow> 300)"
proof -
  from assms(1,2) have v: "validateTask task = Inr ()"
    by (simp add: validateTask_passes)
  from assms(3) have "numeric_duration task"
    by (simp add: ordinary_def)
  then have "wait_ms task =
               (case get task ''duration'' of JNum n \<Rightarrow> if 0 < n then nat n else 300 | v \<Rightarrow> 300)"
    by (auto simp: wait_ms_def numeric_duration_def split: jsval.splits)
  with processTaskPromise_fulfils [OF v assms(3), of now]
    processTaskAsync_fulfils [OF v assms(3), of now]
    processTaskCallback_fulfils [OF v assms(3), of now]
  show ?thesis
    by blast
qed

theorem elapsed_wait_is_duration_or_default_witness:
  \<open>well_formed sample_email \<and> ordinary sample_email \<and>
   processTaskPromise 10 sample_email =
     Completes \<lparr>outcome = Inr ''Task "Email" (ID: 2) completed successfully in 100ms'',
                settled_at = 110, timers = [\<lparr>set_at = 10, after_ms = 100\<rparr>]\<rparr> \<and>
   well_formed sample_plain \<and> ordinary sample_plain \<and>
   get sample_plain ''duration'' = JUndefined \<and> wait_ms sample_plain = 300 \<and>
   processTaskCallback 10 sample_plain =
     Completes \<lparr>cb_error = None,
                cb_result = Some ''Task "Plain" (ID: 7) completed successfully in 300ms'',
                called_at = 310,
                cb_timers = [\<lparr>set_at = 10, after_ms = 0\<rparr>, \<lparr>set_at = 10, after_ms = 300\<rparr>]\<rparr>\<close>
proof -
  have a: "well_formed sample_email" "\<not> error_tagged sample_email" "ordinary sample_email"
    by (simp_all add: sample_email_def error_tagged_def ordinary_def numeric_duration_def)
  have b: "well_formed sample_plain" "\<not> error_tagged sample_plain" "ordinary sample_plain"
    by (simp_all add: sample_plain_def error_tagged_def ordinary_def numeric_duration_def)
  have wa: "wait_ms sample_email = 100"
    by (simp add: wait_ms_def sample_email_def)
  have wb: "wait_ms sample_plain = 300" "get sample_plain ''duration'' = JUndefined"
    by (simp_all add: wait_ms_def sample_plain_def)
  from elapsed_wait_is_duration_or_default [OF a, of 10] obtain r where
    "processTaskPromise 10 sample_email =
       Completes \<lparr>outcome = Inr r, settled_at = 10 + wait_ms sample_email,
                  timers = [\<lparr>set_at = 10, after_ms = wait_ms sample_email\<rparr>]\<rparr>"
    by blast
  moreover
  have \<open>processTaskPromise 10 sample_email =
     Completes \<lparr>outcome = Inr ''Task "Email" (ID: 2) completed successfully in 100ms'',
                settled_at = 110, timers = [\<lparr>set_at = 10, after_ms = 100\<rparr>]\<rparr>\<close>
    by (simp add: processTaskPromise_def validateTask_def sample_email_def js_or_def clamp_ms_def
          template.simps Let_def digits.simps)
  moreover
  have \<open>processTaskCallback 10 sample_plain =
     Completes \<lparr>cb_error = None,
                cb_result = Some ''Task "Plain" (ID: 7) completed successfully in 300ms'',
                called_at = 310,
                cb_timers = [\<lparr>set_at = 10, after_ms = 0\<rparr>, \<lparr>set_at = 10, after_ms = 300\<rparr>]\<rparr>\<close>
    by (simp add: processTaskCallback_def validateTask_def sample_plain_def js_or_def clamp_ms_def
          template.simps Let_def digits.simps)
  ultimately show ?thesis
    using a b wb by simp
qed

section \<open>Batches that are empty or no list\<close>

text \<open>
  C6, as the claim states it, fails: \<^verbatim>\<open>taskRunner.js\<close> rejects the empty batch, but with the
  plain \<^verbatim>\<open>Error\<close> of the language, which is neither of the two kinds of the taxonomy. And
  \<^verbatim>\<open>processTasksPromises\<close> of \<^verbatim>\<open>asyncTasks.js\<close>, which has no check of its batch, is
  fulfilled at once with the empty list.
\<close>

theorem empty_batch_error_is_plain_counterexample:
  "processTasksPromises 0 (Array []) =
     Completes \<lparr>outcome = Inl (Error ''Tasks must be a non-empty array''), settled_at = 0,
                timers = []\<rparr> \<and>
   processTasksCallbacks 0 (Array []) =
     Completes \<lparr>cb_error = Some (Error ''Tasks must be a non-empty array''), cb_result = None,
                called_at = 0, cb_timers = []\<rparr> \<and>
   \<not> taxonomy_error (Error ''Tasks must be a non-empty array'') \<and>
   asyncTasks_processTasksPromises 0 [] =
     Completes \<lparr>outcome = Inr [], settled_at = 0, timers = []\<rparr>"
  by (simp add: processTasksPromises_def processTasksCallbacks_def
        asyncTasks_processTasksPromises_def Promise_all_def)

text \<open>
  C6, amended. Each of the seven policies of \<^verbatim>\<open>taskRunner.js\<close> rejects a batch that is
  empty or no list at once, with no timer set: with the plain \<^verbatim>\<open>Error\<close>
  "Tasks must be a non-empty array", never with an empty result list. The callback chain
  hands its handler that error and \<^verbatim>\<open>null\<close>.
\<close>

theorem unusable_batch_rejected:
  assumes "unusable_batch tasks"
  shows "processTasksCallbacks now tasks =
           Completes
             \<lparr>cb_error = Some (Error ''Tasks must be a non-empty array''), cb_result = None,
              called_at = now, cb_timers = []\<rparr> \<and>
         processTasksPromises now tasks =
           Completes
             \<lparr>outcome = Inl (Error ''Tasks must be a non-empty array''), settled_at = now,
              timers = []\<rparr> \<and>
         processTasksParallel now tasks =
           Completes
             \<lparr>outcome = Inl (Error ''Tasks must be a non-empty array''), settled_at = now,
              timers = []\<rparr> \<and>
         processTasksRace now tasks =
           Completes
             \<lparr>outcome = Inl (Error ''Tasks must be a non-empty array''), settled_at = now,
              timers = []\<rparr> \<and>
         processTasksAsyncAwait now tasks =
           Completes
             \<lparr>outcome = Inl (Error ''Tasks must be a non-empty array''), settled_at = now,
              timers = []\<rparr> \<and>
         processTasksParallelAsync now tasks =
           Completes
             \<lparr>outcome = Inl (Error ''Tasks must be a non-empty array''), settled_at = now,
              timers = []\<rparr> \<and>
         processTasksRaceAsync now tasks =
           Completes
             \<lparr>outcome = Inl (Error ''Tasks must be a non-empty array''), settled_at = now,
              timers = []\<rparr>"
proof (cases tasks)
  case (NotArray v)
  then show ?thesis
    by (simp add: processTasksCallbacks_def processTasksPromises_def processTasksParallel_def
          processTasksRace_def processTasksAsyncAwait_def processTasksParallelAsync_def
          processTasksRaceAsync_def)
next
  case (Array ts)
  with assms have "ts = []"
    by simp
  with Array show ?thesis
    by (simp add: processTasksCallbacks_def processTasksPromises_def processTasksParallel_def
          processTasksRace_def processTasksAsyncAwait_def processTasksParallelAsync_def
          processTasksRaceAsync_def)
qed

theorem unusable_batch_rejected_witness:
  "unusable_batch (NotArray (JStr ''tasks'')) \<and>
   processTasksRace 3 (NotArray (JStr ''tasks'')) =
     Completes \<lparr>outcome = Inl (Error ''Tasks must be a non-empty array''), settled_at = 3,
                timers = []\<rparr> \<and>
   unusable_batch (Array []) \<and>
   processTasksParallel 3 (Array []) =
     Completes \<lparr>outcome = Inl (Error ''Tasks must be a non-empty array''), settled_at = 3,
                timers = []\<rparr> \<and>
   processTasksParallel 3 (Array []) \<noteq>
     Completes \<lparr>outcome = Inr [], settled_at = 3, timers = []\<rparr>"
proof -
  have a: "unusable_batch (NotArray (JStr ''tasks''))" and b: "unusable_batch (Array [])"
    by simp_all
  from unusable_batch_rejected [OF a, of 3] unusable_batch_rejected [OF b, of 3] a b
  show ?thesis
    by simp
qed

section \<open>The order in which promises settle\<close>

lemma settles_before_irrefl: "\<not> settles_before p p"
  by (simp add: settles_before_def)

lemma settles_before_trans:
  "settles_before p q \<Longrightarrow> settles_before q r \<Longrightarrow> settles_before p r"
  by (auto simp: settles_before_def)

lemma settles_before_skip:
  "settles_before q w \<Longrightarrow> \<not> settles_before x w \<Longrightarrow> settles_before q x"
  by (auto simp: settles_before_def)

lemma first_settled_snoc:
  "first_settled p (qs @ [q]) =
     (if settles_before q (first_settled p qs) then q else first_settled p qs)"
  by (induction qs arbitrary: p) simp_all

text \<open>
  The first to settle is an element of the sequence that none settles before, and it is
  the earliest such element: it settles strictly before every element in front of it.
\<close>

lemma first_settled_least:
  "\<exists>i<length (p # ps).
      first_settled p ps = (p # ps) ! i \<and>
      (\<forall>j<length (p # ps). \<not> settles_before ((p # ps) ! j) ((p # ps) ! i)) \<and>
      (\<forall>j<i. settles_before ((p # ps) ! i) ((p # ps) ! j))"
proof (induction ps rule: rev_induct)
  case Nil
  show ?case
    by (simp add: settles_before_irrefl)
next
  case (snoc q qs)
  define xs where "xs = p # qs"
  from snoc obtain i where i: "i < length xs"
    and w: "first_settled p qs = xs ! i"
    and none: "\<forall>j<length xs. \<not> settles_before (xs ! j) (xs ! i)"
    and front: "\<forall>j<i. settles_before (xs ! i) (xs ! j)"
    unfolding xs_def by blast
  have app: "p # qs @ [q] = xs @ [q]"
    by (simp add: xs_def)
  show ?case
  proof (cases "settles_before q (xs ! i)")
    case True
    have a: "\<not> settles_before (xs ! j) q" if "j < length xs" for j
      using that none True settles_before_trans by blast
    have b: "settles_before q (xs ! j)" if "j < length xs" for j
      using that none True settles_before_skip by blast
    have "first_settled p (qs @ [q]) = (xs @ [q]) ! length xs"
      using True w by (simp add: first_settled_snoc)
    moreover have "\<forall>j<length (xs @ [q]). \<not> settles_before ((xs @ [q]) ! j) ((xs @ [q]) ! length xs)"
      using a by (auto simp: nth_append settles_before_irrefl)
    moreover have "\<forall>j<length xs. settles_before ((xs @ [q]) ! length xs) ((xs @ [q]) ! j)"
      using b by (auto simp: nth_append)
    ultimately show ?thesis
      unfolding app by (intro exI [of _ "length xs"]) simp
  next
    case False
    have "first_settled p (qs @ [q]) = (xs @ [q]) ! i"
      using False w i by (simp add: first_settled_snoc nth_append)
    moreover have "\<forall>j<length (xs @ [q]). \<not> settles_before ((xs @ [q]) ! j) ((xs @ [q]) ! i)"
      using none False i by (auto simp: nth_append less_Suc_eq)
    moreover have "\<forall>j<i. settles_before ((xs @ [q]) ! i) ((xs @ [q]) ! j)"
      using front i by (auto simp: nth_append)
    ultimately show ?thesis
      unfolding app using i by (intro exI [of _ i]) simp
  qed
qed


section \<open>First to finish\<close>

lemma promise_of_tagged:
  \<open>well_formed task \<Longrightarrow> error_tagged task \<Longrightarrow> ordinary task \<Longrightarrow>
     processTaskPromise now task =
       Completes
         \<lparr>outcome =
            Inl (TaskProcessingError
                   (''Cannot process task "'' @ printed (get task ''name'')
                      @ ''" - simulated error for demonstration'')
                   (get task ''id'') (get task ''name'')),
          settled_at = now, timers = []\<rparr>\<close>
  by (simp add: processTaskPromise_rejects validateTask_tagged ordinary_def)

lemma promise_of_untagged:
  "well_formed task \<Longrightarrow> \<not> error_tagged task \<Longrightarrow> ordinary task \<Longrightarrow>
     processTaskPromise now task =
       Completes \<lparr>outcome = Inr (summary task), settled_at = now + wait_ms task,
                  timers = [\<lparr>set_at = now, after_ms = wait_ms task\<rparr>]\<rparr>"
  by (simp add: processTaskPromise_fulfils validateTask_passes)

lemma tagged_settles_first:
  assumes "well_formed a" "error_tagged a" "ordinary a" "well_formed b" "ordinary b"
  shows "settles_before (processTaskPromise now a) (processTaskPromise now b) \<longleftrightarrow>
           \<not> error_tagged b"
proof (cases "error_tagged b")
  case True
  with assms show ?thesis
    by (simp add: promise_of_tagged settles_before_def)
next
  case False
  with assms show ?thesis
    by (auto simp: promise_of_tagged promise_of_untagged settles_before_def)
qed

lemma untagged_settle_by_wait:
  assumes "well_formed a" "ordinary a" "\<not> error_tagged a"
    "well_formed b" "ordinary b" "\<not> error_tagged b"
  shows "settles_before (processTaskPromise now a) (processTaskPromise now b) \<longleftrightarrow>
           wait_ms a < wait_ms b"
  using assms by (simp add: promise_of_untagged settles_before_def)

lemma race_is_first_settled:
  assumes "ts \<noteq> []"
  shows "\<exists>i<length ts.
           processTasksRace now (Array ts) =
             (case processTaskPromise now (ts ! i) of
                Completes winner \<Rightarrow>
                  Completes
                    \<lparr>outcome = outcome winner, settled_at = settled_at winner,
                     timers = concat (map (\<lambda>task. timers_of (processTaskPromise now task)) ts)\<rparr>
              | Crashes e t tm \<Rightarrow>
                  Crashes e t (concat (map (\<lambda>task. timers_of (processTaskPromise now task)) ts))) \<and>
           (\<forall>j<length ts. \<not> settles_before (processTaskPromise now (ts ! j))
                                             (processTaskPromise now (ts ! i))) \<and>
           (\<forall>j<i. settles_before (processTaskPromise now (ts ! i))
                                 (processTaskPromise now (ts ! j)))"
proof -
  from assms obtain t ts' where ts: "ts = t # ts'"
    by (cases ts) auto
  define ps where "ps = map (\<lambda>task. processTaskPromise now task) ts"
  have ps: "ps = processTaskPromise now t # map (\<lambda>task. processTaskPromise now task) ts'"
    by (simp add: ps_def ts)
  from first_settled_least
    [of "processTaskPromise now t" "map (\<lambda>task. processTaskPromise now task) ts'"]
  obtain i where i: "i < length ps"
    and w: "first_settled (processTaskPromise now t)
              (map (\<lambda>task. processTaskPromise now task) ts') = ps ! i"
    and none: "\<forall>j<length ps. \<not> settles_before (ps ! j) (ps ! i)"
    and front: "\<forall>j<i. settles_before (ps ! i) (ps ! j)"
    unfolding ps [symmetric] by blast
  have len: "length ps = length ts"
    by (simp add: ps_def)
  have nth: "ps ! j = processTaskPromise now (ts ! j)" if "j < length ts" for j
    using that by (simp add: ps_def)
  have tm: "concat (map timers_of ps) =
              concat (map (\<lambda>task. timers_of (processTaskPromise now task)) ts)"
    by (simp add: ps_def comp_def)
  have "processTasksRace now (Array ts) = Promise_race (processTaskPromise now t)
          (map (\<lambda>task. processTaskPromise now task) ts')"
    by (simp add: processTasksRace_def ts)
  also have "\<dots> =
          (case ps ! i of
             Completes winner \<Rightarrow>
               Completes \<lparr>outcome = outcome winner, settled_at = settled_at winner,
                          timers = concat (map timers_of ps)\<rparr>
           | Crashes e t tm \<Rightarrow> Crashes e t (concat (map timers_of ps)))"
    unfolding Promise_race_def w ps [symmetric] ..
  finally have race: "processTasksRace now (Array ts) =
          (case ps ! i of
             Completes winner \<Rightarrow>
               Completes \<lparr>outcome = outcome winner, settled_at = settled_at winner,
                          timers = concat (map timers_of ps)\<rparr>
           | Crashes e t tm \<Rightarrow> Crashes e t (concat (map timers_of ps)))" .
  from i len have i': "i < length ts"
    by simp
  have "processTasksRace now (Array ts) =
          (case processTaskPromise now (ts ! i) of
             Completes winner \<Rightarrow>
               Completes
                 \<lparr>outcome = outcome winner, settled_at = settled_at winner,
                  timers = concat (map (\<lambda>task. timers_of (processTaskPromise now task)) ts)\<rparr>
           | Crashes e t tm \<Rightarrow>
               Crashes e t (concat (map (\<lambda>task. timers_of (processTaskPromise now task)) ts)))"
    unfolding race tm nth [OF i'] ..
  with i none front len nth show ?thesis
    by (intro exI [of _ i]) auto
qed

text \<open>
  C1, as the claim states it, fails: the race is not won by the descriptor of minimal
  duration when another descriptor is tagged as an error. A tagged descriptor is rejected
  in the making of its promise, before any timer fires, whatever its duration. Nor is it
  won by a descriptor of duration 0, which waits the default 300 ms.
\<close>

theorem race_lost_to_error_descriptor_counterexample:
  \<open>well_formed sample_email \<and> well_formed sample_failing \<and>
   get sample_email ''duration'' = JNum 100 \<and> get sample_failing ''duration'' = JNum 500 \<and>
   processTaskPromise 0 sample_email =
     Completes \<lparr>outcome = Inr ''Task "Email" (ID: 2) completed successfully in 100ms'',
                settled_at = 100, timers = [\<lparr>set_at = 0, after_ms = 100\<rparr>]\<rparr> \<and>
   processTasksRace 0 (Array [sample_email, sample_failing]) =
     Completes
       \<lparr>outcome =
          Inl (TaskProcessingError ''Cannot process task "Broken" - simulated error for demonstration''
                 (JNum 4) (JStr ''Broken'')),
        settled_at = 0, timers = [\<lparr>set_at = 0, after_ms = 100\<rparr>]\<rparr> \<and>
   well_formed sample_instant \<and> get sample_instant ''duration'' = JNum 0 \<and>
   processTaskPromise 0 sample_instant =
     Completes \<lparr>outcome = Inr ''Task "Ping" (ID: 5) completed successfully in 300ms'',
                settled_at = 300, timers = [\<lparr>set_at = 0, after_ms = 300\<rparr>]\<rparr> \<and>
   processTasksRace 0 (Array [sample_instant, sample_email]) =
     Completes
       \<lparr>outcome = Inr ''Task "Email" (ID: 2) completed successfully in 100ms'',
        settled_at = 100,
        timers = [\<lparr>set_at = 0, after_ms = 300\<rparr>, \<lparr>set_at = 0, after_ms = 100\<rparr>]\<rparr>\<close>
  by (simp add: processTasksRace_def Promise_race_def processTaskPromise_def validateTask_def
        settles_before_def sample_email_def sample_failing_def sample_instant_def js_or_def
        clamp_ms_def template.simps Let_def digits.simps)

text \<open>
  C1, amended. Take a non-empty list of well-formed descriptors whose \<^verbatim>\<open>id\<close> and \<^verbatim>\<open>name\<close>
  are printable and whose durations are absent or integers from 0 to \<open>2^31 - 1\<close>. If some
  descriptor is tagged as an error, the race settles at once, with the
  TaskProcessingError of the first tagged descriptor of the list. If none is, the race
  settles with the success of the descriptor whose wait (the duration, or 300 ms when that
  is absent or 0) is minimal, and of two descriptors with the same minimal wait the one
  earlier in the list wins.
\<close>

theorem race_settles_with_first_to_finish:
  assumes "ts \<noteq> []" and "\<forall>t\<in>set ts. well_formed t \<and> ordinary t"
  shows "\<exists>i<length ts. \<exists>race winner.
           processTasksRace now (Array ts) = Completes race \<and>
           processTaskPromise now (ts ! i) = Completes winner \<and>
           outcome race = outcome winner \<and> settled_at race = settled_at winner \<and>
           (if \<exists>t\<in>set ts. error_tagged t then
              error_tagged (ts ! i) \<and> (\<forall>j<i. \<not> error_tagged (ts ! j)) \<and>
              settled_at race = now \<and>
              (\<exists>msg. outcome race =
                       Inl (TaskProcessingError msg (get (ts ! i) ''id'') (get (ts ! i) ''name'')))
            else
              (\<forall>j<length ts. wait_ms (ts ! i) \<le> wait_ms (ts ! j)) \<and>
              (\<forall>j<i. wait_ms (ts ! i) < wait_ms (ts ! j)) \<and>
              settled_at race = now + wait_ms (ts ! i) \<and>
              (\<exists>r. outcome race = Inr r))"
proof -
  let ?all = "concat (map (\<lambda>task. timers_of (processTaskPromise now task)) ts)"
  from race_is_first_settled [OF assms(1), of now] obtain i where i: "i < length ts"
    and race: "processTasksRace now (Array ts) =
                 (case processTaskPromise now (ts ! i) of
                    Completes winner \<Rightarrow>
                      Completes \<lparr>outcome = outcome winner, settled_at = settled_at winner,
                                 timers = ?all\<rparr>
                  | Crashes e t tm \<Rightarrow> Crashes e t ?all)"
    and none: "\<forall>j<length ts. \<not> settles_before (processTaskPromise now (ts ! j))
                                              (processTaskPromise now (ts ! i))"
    and front: "\<forall>j<i. settles_before (processTaskPromise now (ts ! i))
                                      (processTaskPromise now (ts ! j))"
    by blast
  have wf: "well_formed (ts ! j)" "ordinary (ts ! j)" if "j < length ts" for j
    using that assms(2) by simp_all
  show ?thesis
  proof (cases "\<exists>t\<in>set ts. error_tagged t")
    case True
    then obtain k where k: "k < length ts" "error_tagged (ts ! k)"
      by (auto simp: in_set_conv_nth)
    have tagged: "error_tagged (ts ! i)"
    proof (rule ccontr)
      assume "\<not> error_tagged (ts ! i)"
      then have "settles_before (processTaskPromise now (ts ! k)) (processTaskPromise now (ts ! i))"
        using tagged_settles_first [of "ts ! k" "ts ! i" now] k i wf by simp
      with none k show False
        by blast
    qed
    have earlier: "\<not> error_tagged (ts ! j)" if "j < i" for j
    proof -
      from that i have j: "j < length ts"
        by simp
      from front that
      have "settles_before (processTaskPromise now (ts ! i)) (processTaskPromise now (ts ! j))"
        by blast
      then show ?thesis
        using tagged_settles_first [of "ts ! i" "ts ! j" now] tagged i j wf by simp
    qed
    from tagged i wf promise_of_tagged [of "ts ! i" now]
    obtain msg where
      p: "processTaskPromise now (ts ! i) =
            Completes
              \<lparr>outcome = Inl (TaskProcessingError msg (get (ts ! i) ''id'') (get (ts ! i) ''name'')),
               settled_at = now, timers = []\<rparr>"
      by blast
    from race p have
      "processTasksRace now (Array ts) =
         Completes
           \<lparr>outcome = Inl (TaskProcessingError msg (get (ts ! i) ''id'') (get (ts ! i) ''name'')),
            settled_at = now, timers = ?all\<rparr>"
      by simp
    with True i p tagged earlier show ?thesis
      by (intro exI [of _ i]) auto
  next
    case False
    then have un: "\<not> error_tagged (ts ! j)" if "j < length ts" for j
      using that by auto
    have least: "wait_ms (ts ! i) \<le> wait_ms (ts ! j)" if "j < length ts" for j
    proof -
      from none that
      have "\<not> settles_before (processTaskPromise now (ts ! j)) (processTaskPromise now (ts ! i))"
        by blast
      then show ?thesis
        using untagged_settle_by_wait [of "ts ! j" "ts ! i" now] that i wf un by simp
    qed
    have strict: "wait_ms (ts ! i) < wait_ms (ts ! j)" if "j < i" for j
    proof -
      from that i have j: "j < length ts"
        by simp
      from front that
      have "settles_before (processTaskPromise now (ts ! i)) (processTaskPromise now (ts ! j))"
        by blast
      then show ?thesis
        using untagged_settle_by_wait [of "ts ! i" "ts ! j" now] i j wf un by simp
    qed
    from promise_of_untagged [of "ts ! i" now] i wf un
    have p: "processTaskPromise now (ts ! i) =
               Completes \<lparr>outcome = Inr (summary (ts ! i)), settled_at = now + wait_ms (ts ! i),
                          timers = [\<lparr>set_at = now, after_ms = wait_ms (ts ! i)\<rparr>]\<rparr>"
      by simp
    from race p have
      "processTasksRace now (Array ts) =
         Completes \<lparr>outcome = Inr (summary (ts ! i)), settled_at = now + wait_ms (ts ! i),
                    timers = ?all\<rparr>"
      by simp
    with False i p least strict show ?thesis
      by (intro exI [of _ i]) auto
  qed
qed

theorem race_settles_with_first_to_finish_witness:
  \<open>wait_ms sample_report = 500 \<and> wait_ms sample_email = 100 \<and> wait_ms sample_backup = 300 \<and>
   processTasksRace 0 (Array [sample_report, sample_email, sample_backup]) =
     Completes
       \<lparr>outcome = Inr ''Task "Email" (ID: 2) completed successfully in 100ms'',
        settled_at = 100,
        timers = [\<lparr>set_at = 0, after_ms = 500\<rparr>, \<lparr>set_at = 0, after_ms = 100\<rparr>,
                  \<lparr>set_at = 0, after_ms = 300\<rparr>]\<rparr> \<and>
   wait_ms sample_plain = 300 \<and>
   processTasksRace 0 (Array [sample_report, sample_backup, sample_plain]) =
     Completes
       \<lparr>outcome = Inr ''Task "Backup" (ID: 3) completed successfully in 300ms'',
        settled_at = 300,
        timers = [\<lparr>set_at = 0, after_ms = 500\<rparr>, \<lparr>set_at = 0, after_ms = 300\<rparr>,
                  \<lparr>set_at = 0, after_ms = 300\<rparr>]\<rparr> \<and>
   processTasksRace 0 (Array [sample_report, sample_plain, sample_backup]) =
     Completes
       \<lparr>outcome = Inr ''Task "Plain" (ID: 7) completed successfully in 300ms'',
        settled_at = 300,
        timers = [\<lparr>set_at = 0, after_ms = 500\<rparr>, \<lparr>set_at = 0, after_ms = 300\<rparr>,
                  \<lparr>set_at = 0, after_ms = 300\<rparr>]\<rparr>\<close>
proof -
  have a: "[sample_report, sample_email, sample_backup] \<noteq> []"
    by simp
  have b: "\<forall>t\<in>set [sample_report, sample_email, sample_backup]. well_formed t \<and> ordinary t"
    by (simp add: sample_defs ordinary_def numeric_duration_def)
  from race_settles_with_first_to_finish [OF a b, of 0]
  have "\<exists>race. processTasksRace 0 (Array [sample_report, sample_email, sample_backup]) =
                 Completes race"
    by blast
  then show ?thesis
    by (simp add: processTasksRace_def Promise_race_def processTaskPromise_def validateTask_def
          settles_before_def wait_ms_def sample_defs js_or_def clamp_ms_def template.simps
          Let_def digits.simps)
qed

section \<open>All in parallel\<close>









section \<open>The sequential policies\<close>

text \<open>
  C4. The claim is that the callback chain, when a descriptor fails, hands its handler the
  error alone. The chain of \<^verbatim>\<open>taskRunner.js\<close> calls \<^verbatim>\<open>callback(error, results)\<close>: on the
  batch of a good descriptor followed by one tagged as an error, the handler gets the
  TaskProcessingError and, as its second argument, the list with the summary of the
  first descriptor.
\<close>

theorem callback_chain_forwards_partial_results:
  \<open>processTasksCallbacks 0 (Array [sample_email, sample_failing]) =
     Completes
       \<lparr>cb_error =
          Some (TaskProcessingError
                  ''Cannot process task "Broken" - simulated error for demonstration''
                  (JNum 4) (JStr ''Broken'')),
        cb_result = Some [Some ''Task "Email" (ID: 2) completed successfully in 100ms''],
        called_at = 100,
        cb_timers = [\<lparr>set_at = 0, after_ms = 0\<rparr>, \<lparr>set_at = 0, after_ms = 100\<rparr>,
                     \<lparr>set_at = 100, after_ms = 0\<rparr>]\<rparr>\<close>
  by (simp add: processTasksCallbacks_def processNext.simps processTaskCallback_def
        validateTask_def sample_email_def sample_failing_def js_or_def clamp_ms_def
        template.simps Let_def digits.simps)

theorem callback_chain_forwards_partial_results_witness:
  \<open>(\<exists>call. processTasksCallbacks 0 (Array [sample_email, sample_failing]) = Completes call \<and>
           cb_result call = Some [Some ''Task "Email" (ID: 2) completed successfully in 100ms''] \<and>
           cb_result call \<noteq> None)\<close>
  using callback_chain_forwards_partial_results
  by simp

lemma promises_loop_abort:
  assumes "\<forall>t\<in>set pre. validateTask t = Inr () \<and> ordinary t" and "validateTask bad = Inl e"
  shows "\<exists>at tm. processTasksPromises_loop now results log (pre @ bad # rest) =
                   Completes \<lparr>outcome = Inl e, settled_at = at, timers = log @ tm\<rparr> \<and>
                 length tm = length pre"
    and "processTasksPromises_loop now results log (pre @ bad # rest) =
           processTasksPromises_loop now results log (pre @ [bad])"
  using assms
proof (induction pre arbitrary: now results log)
  case Nil
  {
    case 1
    then show ?case
      by (simp add: processTaskPromise_rejects)
  next
    case 2
    then show ?case
      by (simp add: processTaskPromise_rejects)
  }
next
  case (Cons t pre)
  {
    case 1
    then have t: "validateTask t = Inr ()" "ordinary t"
      and pre: "\<forall>t\<in>set pre. validateTask t = Inr () \<and> ordinary t"
      by simp_all
    from Cons.IH(1) [OF pre 1(2), of "now + wait_ms t" "results @ [summary t]"
        "log @ [\<lparr>set_at = now, after_ms = wait_ms t\<rparr>]"]
    obtain at tm where
      "processTasksPromises_loop (now + wait_ms t) (results @ [summary t])
         (log @ [\<lparr>set_at = now, after_ms = wait_ms t\<rparr>]) (pre @ bad # rest) =
       Completes \<lparr>outcome = Inl e, settled_at = at,
                  timers = (log @ [\<lparr>set_at = now, after_ms = wait_ms t\<rparr>]) @ tm\<rparr>"
      and "length tm = length pre"
      by blast
    then show ?case
      by (intro exI [of _ at] exI [of _ "\<lparr>set_at = now, after_ms = wait_ms t\<rparr> # tm"])
         (simp add: processTaskPromise_fulfils [OF t])
  next
    case 2
    then have t: "validateTask t = Inr ()" "ordinary t"
      and pre: "\<forall>t\<in>set pre. validateTask t = Inr () \<and> ordinary t"
      by simp_all
    from Cons.IH(2) [OF pre 2(2)] show ?case
      by (simp add: processTaskPromise_fulfils [OF t])
  }
qed

lemma asyncAwait_loop_abort:
  assumes "\<forall>t\<in>set pre. validateTask t = Inr () \<and> ordinary t" and "validateTask bad = Inl e"
  shows "processTasksAsyncAwait_loop now results log (pre @ bad # rest) =
           processTasksPromises_loop now results log (pre @ bad # rest)"
    and "processTasksAsyncAwait_loop now results log (pre @ [bad]) =
           processTasksPromises_loop now results log (pre @ [bad])"
  using assms
  by (induction pre arbitrary: now results log)
     (simp_all add: processTaskPromise_fulfils processTaskPromise_rejects
        processTaskAsync_fulfils processTaskAsync_rejects)

text \<open>One link of the chain: a descriptor that passes, and the descriptor that fails.\<close>

lemma processNext_step:
  assumes "i < length pre" and "validateTask (pre ! i) = Inr ()" and "ordinary (pre ! i)"
  shows "processNext (pre @ xs) i results now log =
           processNext (pre @ xs) (Suc i) (results @ [Some (summary (pre ! i))])
             (now + wait_ms (pre ! i))
             (log @ [\<lparr>set_at = now, after_ms = 0\<rparr>,
                     \<lparr>set_at = now, after_ms = wait_ms (pre ! i)\<rparr>])"
  using assms(1)
  by (subst processNext.simps)
     (simp add: nth_append processTaskCallback_fulfils [OF assms(2,3)])

lemma processNext_stop:
  assumes "validateTask bad = Inl e"
  shows "processNext (pre @ bad # rest) (length pre) results now log =
           Completes \<lparr>cb_error = Some e, cb_result = Some results, called_at = now,
                      cb_timers = log @ [\<lparr>set_at = now, after_ms = 0\<rparr>]\<rparr>"
  by (subst processNext.simps) (simp add: processTaskCallback_rejects [OF assms])

lemma processNext_abort:
  assumes "\<forall>t\<in>set pre. validateTask t = Inr () \<and> ordinary t" and "validateTask bad = Inl e"
    and "i \<le> length pre"
  shows "\<exists>partial at tm.
           processNext (pre @ bad # rest) i results now log =
             Completes \<lparr>cb_error = Some e, cb_result = Some partial, called_at = at,
                        cb_timers = log @ tm\<rparr> \<and>
           length tm = 2 * (length pre - i) + 1"
  using assms(3)
proof (induction "length pre - i" arbitrary: i results now log)
  case 0
  then have "i = length pre"
    by simp
  then show ?case
    by (simp add: processNext_stop [OF assms(2)])
next
  case (Suc n)
  then have i: "i < length pre" and n: "n = length pre - Suc i"
    by simp_all
  from i assms(1) have ok: "validateTask (pre ! i) = Inr ()" "ordinary (pre ! i)"
    by simp_all
  from i have le: "Suc i \<le> length pre"
    by simp
  let ?log = "log @ [\<lparr>set_at = now, after_ms = 0\<rparr>,
                     \<lparr>set_at = now, after_ms = wait_ms (pre ! i)\<rparr>]"
  from Suc.hyps(1) [OF n le, of "results @ [Some (summary (pre ! i))]"
      "now + wait_ms (pre ! i)" ?log]
  obtain partial at tm where
    run: "processNext (pre @ bad # rest) (Suc i) (results @ [Some (summary (pre ! i))])
            (now + wait_ms (pre ! i)) ?log =
          Completes \<lparr>cb_error = Some e, cb_result = Some partial, called_at = at,
                     cb_timers = ?log @ tm\<rparr>"
    and len: "length tm = 2 * (length pre - Suc i) + 1"
    by blast
  from i len have "length ([\<lparr>set_at = now, after_ms = 0\<rparr>,
                             \<lparr>set_at = now, after_ms = wait_ms (pre ! i)\<rparr>] @ tm) =
                     2 * (length pre - i) + 1"
    by simp
  with run show ?case
    unfolding processNext_step [OF i ok]
    by (intro exI [of _ partial] exI [of _ at]
          exI [of _ "[\<lparr>set_at = now, after_ms = 0\<rparr>,
                      \<lparr>set_at = now, after_ms = wait_ms (pre ! i)\<rparr>] @ tm"])
       simp
qed

lemma processNext_cut:
  assumes "\<forall>t\<in>set pre. validateTask t = Inr () \<and> ordinary t" and "validateTask bad = Inl e"
    and "i \<le> length pre"
  shows "processNext (pre @ bad # rest) i results now log =
           processNext (pre @ [bad]) i results now log"
  using assms(3)
proof (induction "length pre - i" arbitrary: i results now log)
  case 0
  then have "i = length pre"
    by simp
  then show ?case
    by (simp add: processNext_stop [OF assms(2)])
next
  case (Suc n)
  then have i: "i < length pre" and n: "n = length pre - Suc i"
    by simp_all
  from i assms(1) have ok: "validateTask (pre ! i) = Inr ()" "ordinary (pre ! i)"
    by simp_all
  from i have le: "Suc i \<le> length pre"
    by simp
  from Suc.hyps(1) [OF n le] show ?case
    by (simp add: processNext_step [OF i ok])
qed

text \<open>
  C3, as the claim states it, fails: a batch that holds a descriptor tagged as an error
  need not fail with that descriptor's TaskProcessingError. The run aborts at the first
  descriptor that fails, which here is an invalid one in front of the tagged one; and a
  tagged descriptor that lacks its \<^verbatim>\<open>name\<close> fails the shape check, which comes first.
\<close>

theorem sequential_aborts_earlier_counterexample:
  "error_tagged sample_failing \<and>
   processTasksAsyncAwait 0 (Array [sample_nameless, sample_failing]) =
     Completes
       \<lparr>outcome = Inl (TaskValidationError ''Task must have id and name properties''
                          sample_nameless),
        settled_at = 0, timers = []\<rparr> \<and>
   processTasksPromises 0 (Array [sample_nameless, sample_failing]) =
     Completes
       \<lparr>outcome = Inl (TaskValidationError ''Task must have id and name properties''
                          sample_nameless),
        settled_at = 0, timers = []\<rparr> \<and>
   processTasksCallbacks 0 (Array [sample_nameless, sample_failing]) =
     Completes
       \<lparr>cb_error = Some (TaskValidationError ''Task must have id and name properties''
                           sample_nameless),
        cb_result = Some [], called_at = 0, cb_timers = [\<lparr>set_at = 0, after_ms = 0\<rparr>]\<rparr> \<and>
   error_tagged sample_tagged_nameless \<and>
   processTasksAsyncAwait 0 (Array [sample_tagged_nameless]) =
     Completes
       \<lparr>outcome = Inl (TaskValidationError ''Task must have id and name properties''
                          sample_tagged_nameless),
        settled_at = 0, timers = []\<rparr>"
  by (simp add: processTasksAsyncAwait_def processTasksPromises_def processTasksCallbacks_def
        processNext.simps processTaskCallback_def processTaskAsync_def processTaskPromise_def
        validateTask_def error_tagged_def sample_nameless_def sample_failing_def
        sample_tagged_nameless_def clamp_ms_def Let_def)

text \<open>
  C3, amended. Take a batch in which a well-formed descriptor tagged as an error comes
  after descriptors that are all well-formed and not tagged, all of them ordinary:
  \<^verbatim>\<open>id\<close> and \<^verbatim>\<open>name\<close> printable, the duration absent or an integer from 0 to \<open>2^31 - 1\<close>.
  Each of the three sequential policies (the callback chain, the promise loop and the
  await loop) fails with the TaskProcessingError that carries the \<^verbatim>\<open>id\<close> and \<^verbatim>\<open>name\<close> of the
  tagged descriptor. No descriptor after it is run: the timers set are one for each
  descriptor in front of it (in the callback chain two, and the deferral of the tagged
  one), and the whole run is the run of the batch cut off after the tagged descriptor.
\<close>

theorem sequential_aborts_at_error_descriptor:
  assumes "\<forall>t\<in>set pre. well_formed t \<and> \<not> error_tagged t \<and> ordinary t"
    and "well_formed bad" and "error_tagged bad" and "ordinary bad"
  shows "\<exists>msg at tm partial at' tm'.
           processTasksPromises now (Array (pre @ bad # rest)) =
             Completes
               \<lparr>outcome = Inl (TaskProcessingError msg (get bad ''id'') (get bad ''name'')),
                settled_at = at, timers = tm\<rparr> \<and>
           processTasksAsyncAwait now (Array (pre @ bad # rest)) =
             Completes
               \<lparr>outcome = Inl (TaskProcessingError msg (get bad ''id'') (get bad ''name'')),
                settled_at = at, timers = tm\<rparr> \<and>
           length tm = length pre \<and>
           processTasksCallbacks now (Array (pre @ bad # rest)) =
             Completes
               \<lparr>cb_error = Some (TaskProcessingError msg (get bad ''id'') (get bad ''name'')),
                cb_result = Some partial, called_at = at', cb_timers = tm'\<rparr> \<and>
           length tm' = 2 * length pre + 1 \<and>
           processTasksPromises now (Array (pre @ bad # rest)) =
             processTasksPromises now (Array (pre @ [bad])) \<and>
           processTasksAsyncAwait now (Array (pre @ bad # rest)) =
             processTasksAsyncAwait now (Array (pre @ [bad])) \<and>
           processTasksCallbacks now (Array (pre @ bad # rest)) =
             processTasksCallbacks now (Array (pre @ [bad]))"
proof -
  from assms(1) have pre: "\<forall>t\<in>set pre. validateTask t = Inr () \<and> ordinary t"
    by (simp add: validateTask_passes)
  from assms(2,3,4) obtain msg where
    bad: "validateTask bad = Inl (TaskProcessingError msg (get bad ''id'') (get bad ''name''))"
    using validateTask_tagged by (auto simp: ordinary_def)
  from promises_loop_abort(1) [OF pre bad, of now "[]" "[]" rest] obtain at tm where
    loop: "processTasksPromises_loop now [] [] (pre @ bad # rest) =
             Completes
               \<lparr>outcome = Inl (TaskProcessingError msg (get bad ''id'') (get bad ''name'')),
                settled_at = at, timers = tm\<rparr>"
    and tm: "length tm = length pre"
    by auto
  note cut = promises_loop_abort(2) [OF pre bad, of now "[]" "[]" rest]
  note async = asyncAwait_loop_abort [OF pre bad, of now "[]" "[]"]
  from processNext_abort [OF pre bad, of 0 rest "[]" now "[]"] obtain partial at' tm' where
    chain: "processNext (pre @ bad # rest) 0 [] now [] =
              Completes
                \<lparr>cb_error = Some (TaskProcessingError msg (get bad ''id'') (get bad ''name'')),
                 cb_result = Some partial, called_at = at', cb_timers = tm'\<rparr>"
    and tm': "length tm' = 2 * length pre + 1"
    by auto
  note chain_cut = processNext_cut [OF pre bad, of 0 rest "[]" now "[]"]
  have "processTasksPromises now (Array (pre @ bad # rest)) =
          Completes
            \<lparr>outcome = Inl (TaskProcessingError msg (get bad ''id'') (get bad ''name'')),
             settled_at = at, timers = tm\<rparr>"
    and "processTasksPromises now (Array (pre @ bad # rest)) =
           processTasksPromises now (Array (pre @ [bad]))"
    using loop cut by (simp_all add: processTasksPromises_def)
  moreover
  have "processTasksAsyncAwait now (Array (pre @ bad # rest)) =
          Completes
            \<lparr>outcome = Inl (TaskProcessingError msg (get bad ''id'') (get bad ''name'')),
             settled_at = at, timers = tm\<rparr>"
    and "processTasksAsyncAwait now (Array (pre @ bad # rest)) =
           processTasksAsyncAwait now (Array (pre @ [bad]))"
    using loop cut async by (simp_all add: processTasksAsyncAwait_def)
  moreover
  have "processTasksCallbacks now (Array (pre @ bad # rest)) =
          Completes
            \<lparr>cb_error = Some (TaskProcessingError msg (get bad ''id'') (get bad ''name'')),
             cb_result = Some partial, called_at = at', cb_timers = tm'\<rparr>"
    and "processTasksCallbacks now (Array (pre @ bad # rest)) =
           processTasksCallbacks now (Array (pre @ [bad]))"
    using chain chain_cut by (simp_all add: processTasksCallbacks_def)
  ultimately show ?thesis
    using tm tm' by blast
qed

theorem sequential_aborts_at_error_descriptor_witness:
  \<open>well_formed sample_failing \<and> error_tagged sample_failing \<and> ordinary sample_failing \<and>
   processTasksAsyncAwait 0 (Array [sample_email, sample_failing, sample_report]) =
     Completes
       \<lparr>outcome =
          Inl (TaskProcessingError ''Cannot process task "Broken" - simulated error for demonstration''
                 (JNum 4) (JStr ''Broken'')),
        settled_at = 100, timers = [\<lparr>set_at = 0, after_ms = 100\<rparr>]\<rparr> \<and>
   processTasksAsyncAwait 0 (Array [sample_email, sample_failing, sample_report]) =
     processTasksAsyncAwait 0 (Array [sample_email, sample_failing]) \<and>
   processTasksCallbacks 0 (Array [sample_email, sample_failing, sample_report]) =
     processTasksCallbacks 0 (Array [sample_email, sample_failing])\<close>
proof -
  have a: "\<forall>t\<in>set [sample_email]. well_formed t \<and> \<not> error_tagged t \<and> ordinary t"
    by (simp add: sample_email_def error_tagged_def ordinary_def numeric_duration_def)
  have b: "well_formed sample_failing" and c: "error_tagged sample_failing"
    and d: "ordinary sample_failing"
    by (simp_all add: sample_failing_def error_tagged_def ordinary_def numeric_duration_def)
  from sequential_aborts_at_error_descriptor [OF a b c d, of 0 "[sample_report]"]
  have "processTasksAsyncAwait 0 (Array [sample_email, sample_failing, sample_report]) =
          processTasksAsyncAwait 0 (Array [sample_email, sample_failing])"
    and "processTasksCallbacks 0 (Array [sample_email, sample_failing, sample_report]) =
          processTasksCallbacks 0 (Array [sample_email, sample_failing])"
    by auto
  moreover
  have \<open>processTasksAsyncAwait 0 (Array [sample_email, sample_failing]) =
     Completes
       \<lparr>outcome =
          Inl (TaskProcessingError ''Cannot process task "Broken" - simulated error for demonstration''
                 (JNum 4) (JStr ''Broken'')),
        settled_at = 100, timers = [\<lparr>set_at = 0, after_ms = 100\<rparr>]\<rparr>\<close>
    by (simp add: processTasksAsyncAwait_def processTaskAsync_def delay_def validateTask_def
          sample_email_def sample_failing_def js_or_def clamp_ms_def template.simps Let_def
          digits.simps)
  ultimately show ?thesis
    using b c d by simp
qed

end
